theory Spec2Isabelle
  imports Main "HOL-Library.Word"
begin

section \<open>The focused-text monitor: data model\<close>

text \<open>
  The program is \<^verbatim>\<open>resources/linux-text-monitor.py\<close>. It locates the focused element of
  the accessibility tree, prints its text and then prints every changed text, using a
  line protocol on standard output.
\<close>

subsection \<open>Text and bytes\<close>

text \<open>
  A Python \<^verbatim>\<open>str\<close> is a sequence of code points and its length and slices count code
  points. The text this program handles comes out of the accessibility binding, which
  decodes the service's UTF-8 strictly, so its characters are Unicode scalar values:
  code points below \<^verbatim>\<open>0x110000\<close> outside the surrogate range. \<open>uchar\<close> is that type,
  \<open>ord\<close> reads the code point as Python's \<^verbatim>\<open>ord\<close> does, and \<open>uchr\<close> builds a
  character from a code point (with U+FFFD standing in for a number that is no scalar
  value, so that \<open>uchr\<close> is total; no definition below applies it to such a number).
\<close>

typedef uchar = "{c::nat. c < 0xD800 \<or> (0xE000 \<le> c \<and> c < 0x110000)}"
  morphisms ord Abs_uchar
  by (rule exI [of _ 0]) simp

setup_lifting type_definition_uchar

lift_definition uchr :: "nat \<Rightarrow> uchar"
  is "\<lambda>n. if n < 0xD800 \<or> (0xE000 \<le> n \<and> n < 0x110000) then n else 0xFFFD"
  by simp

type_synonym ustr = "uchar list"

type_synonym byte = "8 word"

text \<open>A string literal of the source, as text and as bytes.\<close>

definition lit :: "string \<Rightarrow> ustr" where
  "lit s = map (\<lambda>c. uchr (of_char c)) s"

definition bytes_lit :: "string \<Rightarrow> byte list" where
  "bytes_lit s = map of_char s"

definition LF :: uchar where
  "LF = uchr 10"

definition CR :: uchar where
  "CR = uchr 13"

definition MAX_OUTPUT_CHARS :: nat where
  "MAX_OUTPUT_CHARS = 10240"

subsection \<open>The library functions \<^verbatim>\<open>str.encode\<close>, \<^verbatim>\<open>base64.b64encode\<close>, \<^verbatim>\<open>bytes.decode\<close>\<close>

datatype py_error = GLibError | UnicodeDecodeError | IOError | RecursionError

text \<open>\<^verbatim>\<open>s.encode("utf-8")\<close>: one to four bytes for each scalar value.\<close>

definition utf8_char :: "uchar \<Rightarrow> byte list" where
  "utf8_char u =
     (let c = ord u in
      if c < 0x80 then [of_nat c]
      else if c < 0x800 then [of_nat (0xC0 + c div 64), of_nat (0x80 + c mod 64)]
      else if c < 0x10000 then
        [of_nat (0xE0 + c div 4096), of_nat (0x80 + c div 64 mod 64), of_nat (0x80 + c mod 64)]
      else
        [of_nat (0xF0 + c div 262144), of_nat (0x80 + c div 4096 mod 64),
         of_nat (0x80 + c div 64 mod 64), of_nat (0x80 + c mod 64)])"

definition encode_utf8 :: "ustr \<Rightarrow> byte list" where
  "encode_utf8 s = concat (map utf8_char s)"

text \<open>
  \<^verbatim>\<open>base64.b64encode\<close>: the standard alphabet, three bytes to four characters, \<^verbatim>\<open>=\<close>
  padding for a last group of one or two bytes.
\<close>

definition b64_alphabet :: string where
  "b64_alphabet = ''ABCDEFGHIJKLMNOPQRSTUVWXYZabcdefghijklmnopqrstuvwxyz0123456789+/''"

definition b64_char :: "nat \<Rightarrow> byte" where
  "b64_char i = of_char (b64_alphabet ! i)"

definition b64_pad :: byte where
  "b64_pad = of_char CHR ''=''"

fun b64encode :: "byte list \<Rightarrow> byte list" where
  "b64encode [] = []"
| "b64encode [a] =
     (let n = unat a * 65536
      in [b64_char (n div 262144), b64_char (n div 4096 mod 64), b64_pad, b64_pad])"
| "b64encode [a, b] =
     (let n = unat a * 65536 + unat b * 256
      in [b64_char (n div 262144), b64_char (n div 4096 mod 64),
          b64_char (n div 64 mod 64), b64_pad])"
| "b64encode (a # b # c # rest) =
     (let n = unat a * 65536 + unat b * 256 + unat c
      in [b64_char (n div 262144), b64_char (n div 4096 mod 64),
          b64_char (n div 64 mod 64), b64_char (n mod 64)] @ b64encode rest)"

text \<open>\<^verbatim>\<open>bs.decode("ascii")\<close> raises on a byte above 127.\<close>

definition ascii_str :: "byte list \<Rightarrow> ustr" where
  "ascii_str bs = map (\<lambda>b. uchr (unat b)) bs"

definition decode_ascii :: "byte list \<Rightarrow> py_error + ustr" where
  "decode_ascii bs =
     (if list_all (\<lambda>b. b < 128) bs then Inr (ascii_str bs) else Inl UnicodeDecodeError)"

subsection \<open>Standard output and the output encoder\<close>

text \<open>
  Standard output is the list of the lines printed so far; \<^verbatim>\<open>print(s, flush=True)\<close>
  appends one line.
\<close>

type_synonym stdout = "ustr list"

definition py_print :: "ustr \<Rightarrow> stdout \<Rightarrow> stdout" where
  "py_print line out = out @ [line]"

definition emit_text :: "ustr \<Rightarrow> ustr \<Rightarrow> stdout \<Rightarrow> py_error + stdout" where
  "emit_text prefix val out =
     (let truncated = take MAX_OUTPUT_CHARS val in
      if LF \<in> set truncated \<or> CR \<in> set truncated then
        (case decode_ascii (b64encode (encode_utf8 truncated)) of
           Inl e \<Rightarrow> Inl e
         | Inr encoded \<Rightarrow> Inr (py_print (prefix @ lit ''_B64:'' @ encoded) out))
      else Inr (py_print (prefix @ lit '':'' @ truncated) out))"

subsection \<open>The accessibility tree\<close>

text \<open>
  The tree belongs to the accessibility service; the program only queries it. Every query
  of the binding can raise, so each query of a node is a value of a sum type. A text
  capability holds the element's whole text; \<^verbatim>\<open>get_character_count\<close> is its length and
  \<^verbatim>\<open>get_text(start, end)\<close> the characters from offset \<open>start\<close> up to offset \<open>end\<close>.
\<close>

datatype state_type = FOCUSED | ENABLED | EDITABLE | VISIBLE

record text_iface =
  content :: ustr
  count_error :: "py_error option"
  text_error :: "py_error option"

definition get_character_count :: "text_iface \<Rightarrow> py_error + int" where
  "get_character_count ti =
     (case count_error ti of Some e \<Rightarrow> Inl e | None \<Rightarrow> Inr (int (length (content ti))))"

definition get_text :: "text_iface \<Rightarrow> int \<Rightarrow> int \<Rightarrow> py_error + ustr" where
  "get_text ti start_offset end_offset =
     (case text_error ti of
        Some e \<Rightarrow> Inl e
      | None \<Rightarrow> Inr (drop (nat start_offset) (take (nat end_offset) (content ti))))"

text \<open>
  A node: the result of \<^verbatim>\<open>get_state_set()\<close>, whether \<^verbatim>\<open>get_child_count()\<close> raises, the
  result of \<^verbatim>\<open>get_child_at_index(i)\<close> for each index below the child count (an error, the
  null child \<open>None\<close>, or a child), and the result of \<^verbatim>\<open>get_text_iface()\<close>.
\<close>

datatype accessible = Accessible
  (get_state_set: "py_error + state_type list")
  (child_count_error: "py_error option")
  (children: "(py_error + accessible option) list")
  (get_text_iface: "py_error + text_iface option")

definition get_child_count :: "accessible \<Rightarrow> py_error + int" where
  "get_child_count a =
     (case child_count_error a of Some e \<Rightarrow> Inl e | None \<Rightarrow> Inr (int (length (children a))))"

subsection \<open>The focus locator\<close>

text \<open>
  \<^verbatim>\<open>_find_focused\<close> is recursive, and the interpreter bounds the number of nested calls:
  a call made when no further frame is allowed raises \<^verbatim>\<open>RecursionError\<close> at the call, in
  the caller. \<open>find_focused d a\<close> is the call \<^verbatim>\<open>_find_focused(a)\<close> made when \<open>d\<close> more
  frames are allowed. \<open>find_focused_try d a\<close> is the body of its \<^verbatim>\<open>try\<close>, with \<open>d\<close>
  frames left for the calls it makes, and \<open>scan_children\<close> is the loop of that body over
  the child indices. The \<^verbatim>\<open>except Exception: pass\<close> turns every error of the body,
  \<^verbatim>\<open>RecursionError\<close> included, into the result \<open>None\<close>.
\<close>

function find_focused :: "nat \<Rightarrow> accessible \<Rightarrow> py_error + accessible option"
  and find_focused_try :: "nat \<Rightarrow> accessible \<Rightarrow> py_error + accessible option"
  and scan_children ::
    "nat \<Rightarrow> (py_error + accessible option) list \<Rightarrow> py_error + accessible option"
where
  "find_focused 0 a = Inl RecursionError"
| "find_focused (Suc d) a =
     Inr (case find_focused_try d a of Inl e \<Rightarrow> None | Inr result \<Rightarrow> result)"
| "find_focused_try d (Accessible st ce kids ti) =
     (case st of
        Inl e \<Rightarrow> Inl e
      | Inr state_set \<Rightarrow>
          if FOCUSED \<in> set state_set then Inr (Some (Accessible st ce kids ti))
          else (case ce of Some e \<Rightarrow> Inl e | None \<Rightarrow> scan_children d kids))"
| "scan_children d [] = Inr None"
| "scan_children d (Inl e # rest) = Inl e"
| "scan_children d (Inr None # rest) = scan_children d rest"
| "scan_children d (Inr (Some child) # rest) =
     (case find_focused d child of
        Inl e \<Rightarrow> Inl e
      | Inr (Some result) \<Rightarrow> Inr (Some result)
      | Inr None \<Rightarrow> scan_children d rest)"
  by pat_completeness auto
termination
  by (relation "measure (\<lambda>x. case x of
        Inl (d, a) \<Rightarrow> 2 * size a + 1
      | Inr (Inl (d, a)) \<Rightarrow> 2 * size a
      | Inr (Inr (d, kids)) \<Rightarrow> 2 * size_list (size_sum (\<lambda>_. 0) (size_option size)) kids)")
    auto

text \<open>
  The loop of \<^verbatim>\<open>main\<close> over the applications of the desktop; every exception inside it,
  from the fetch of an application or from the call of \<^verbatim>\<open>_find_focused\<close>, goes on with
  the next index.
\<close>

fun search_apps :: "nat \<Rightarrow> (py_error + accessible option) list \<Rightarrow> accessible option" where
  "search_apps d [] = None"
| "search_apps d (Inl e # rest) = search_apps d rest"
| "search_apps d (Inr None # rest) = search_apps d rest"
| "search_apps d (Inr (Some app) # rest) =
     (case find_focused d app of
        Inl e \<Rightarrow> search_apps d rest
      | Inr (Some focused) \<Rightarrow> Some focused
      | Inr None \<Rightarrow> search_apps d rest)"

definition locate_focused :: "nat \<Rightarrow> accessible \<Rightarrow> py_error + accessible option" where
  "locate_focused frames desktop =
     (case get_child_count desktop of
        Inl e \<Rightarrow> Inl e
      | Inr n \<Rightarrow> Inr (search_apps frames (children desktop)))"

subsection \<open>Startup\<close>

text \<open>
  \<open>main\<close> up to the run loop. \<open>frames\<close> is the number of nested calls of
  \<^verbatim>\<open>_find_focused\<close> the interpreter allows inside \<open>main\<close> (the recursion limit less the
  frames in use). The result is what was printed and how the process stands: it has
  exited with a status, it has ended in an uncaught exception (a traceback and status 1),
  or it is watching with \<^verbatim>\<open>last_value\<close> set.
\<close>

datatype status = Exit int | Traceback py_error | Watching ustr

fun exit_status :: "status \<Rightarrow> int option" where
  "exit_status (Exit n) = Some n"
| "exit_status (Traceback e) = Some 1"
| "exit_status (Watching v) = None"

definition main ::
  "bool \<Rightarrow> nat \<Rightarrow> py_error + ustr \<Rightarrow> accessible \<Rightarrow> stdout \<times> status" where
  "main HAS_ATSPI frames stdin_line desktop =
     (let consumed = (case stdin_line of Inl e \<Rightarrow> () | Inr l \<Rightarrow> ()) in
      if \<not> HAS_ATSPI then (py_print (lit ''NO_ELEMENT'') [], Exit 1)
      else
        (case locate_focused frames desktop of
           Inl e \<Rightarrow> ([], Traceback e)
         | Inr None \<Rightarrow> (py_print (lit ''NO_ELEMENT'') [], Exit 1)
         | Inr (Some focused) \<Rightarrow>
             (case get_text_iface focused of
                Inl e \<Rightarrow> (py_print (lit ''NO_VALUE'') [], Exit 0)
              | Inr None \<Rightarrow> (py_print (lit ''NO_VALUE'') [], Exit 0)
              | Inr (Some text_iface) \<Rightarrow>
                  (case get_character_count text_iface of
                     Inl e \<Rightarrow> (py_print (lit ''NO_VALUE'') [], Exit 0)
                   | Inr char_count \<Rightarrow>
                       (case get_text text_iface 0 (min char_count (int MAX_OUTPUT_CHARS)) of
                          Inl e \<Rightarrow> (py_print (lit ''NO_VALUE'') [], Exit 0)
                        | Inr initial_value \<Rightarrow>
                            (case emit_text (lit ''INITIAL_VALUE'') initial_value [] of
                               Inl e \<Rightarrow> (py_print (lit ''NO_VALUE'') [], Exit 0)
                             | Inr out \<Rightarrow> (out, Watching initial_value)))))))"

subsection \<open>The change handler\<close>

text \<open>
  The closure \<^verbatim>\<open>on_text_changed\<close> owns \<^verbatim>\<open>last_value\<close> and prints; the state is both.
  Every exception inside it is swallowed, with what it had done before kept.
\<close>

record watch =
  last_value :: ustr
  printed :: stdout

record event =
  source :: accessible

definition on_text_changed :: "watch \<Rightarrow> event \<Rightarrow> watch" where
  "on_text_changed w ev =
     (case get_text_iface (source ev) of
        Inl e \<Rightarrow> w
      | Inr None \<Rightarrow> w
      | Inr (Some ti) \<Rightarrow>
          (case get_character_count ti of
             Inl e \<Rightarrow> w
           | Inr cc \<Rightarrow>
               (case get_text ti 0 (min cc (int MAX_OUTPUT_CHARS)) of
                  Inl e \<Rightarrow> w
                | Inr new_value \<Rightarrow>
                    if new_value \<noteq> last_value w then
                      (case emit_text (lit ''CHANGED'') new_value (printed w) of
                         Inl e \<Rightarrow> w\<lparr>last_value := new_value\<rparr>
                       | Inr out \<Rightarrow> w\<lparr>last_value := new_value, printed := out\<rparr>)
                    else w)))"

subsection \<open>Traversal orders, for stating what the locator finds\<close>

text \<open>
  \<open>is_focused\<close>: the state set can be read and contains FOCUSED. \<open>preorder\<close> lists the
  nodes of a tree, node first, then the children from left to right. \<open>reachable\<close> lists in
  the same order the nodes a search can get to when only failing queries stop it: nothing
  below a node whose state set or child count cannot be read, and no child after one
  whose fetch raises. \<open>reachable_within d\<close> lists the nodes a search with \<open>d\<close> frames
  can get to: it also stops the loop of a node at its first child when no frame is left
  for the call. \<open>height\<close> is the number of levels of a tree.
\<close>

definition is_focused :: "accessible \<Rightarrow> bool" where
  "is_focused a = (case get_state_set a of Inl e \<Rightarrow> False | Inr ss \<Rightarrow> FOCUSED \<in> set ss)"

function preorder :: "accessible \<Rightarrow> accessible list"
  and preorder_slots :: "(py_error + accessible option) list \<Rightarrow> accessible list"
where
  "preorder (Accessible st ce kids ti) = Accessible st ce kids ti # preorder_slots kids"
| "preorder_slots [] = []"
| "preorder_slots (Inl e # rest) = preorder_slots rest"
| "preorder_slots (Inr None # rest) = preorder_slots rest"
| "preorder_slots (Inr (Some child) # rest) = preorder child @ preorder_slots rest"
  by pat_completeness auto
termination
  by (relation "measure (case_sum size (size_list (size_sum (\<lambda>_. 0) (size_option size))))") auto

function reachable :: "accessible \<Rightarrow> accessible list"
  and reachable_slots :: "(py_error + accessible option) list \<Rightarrow> accessible list"
where
  "reachable (Accessible st ce kids ti) =
     Accessible st ce kids ti #
       (case st of
          Inl e \<Rightarrow> []
        | Inr ss \<Rightarrow> (case ce of Some e \<Rightarrow> [] | None \<Rightarrow> reachable_slots kids))"
| "reachable_slots [] = []"
| "reachable_slots (Inl e # rest) = []"
| "reachable_slots (Inr None # rest) = reachable_slots rest"
| "reachable_slots (Inr (Some child) # rest) = reachable child @ reachable_slots rest"
  by pat_completeness auto
termination
  by (relation "measure (case_sum size (size_list (size_sum (\<lambda>_. 0) (size_option size))))") auto

function reachable_within :: "nat \<Rightarrow> accessible \<Rightarrow> accessible list"
  and reachable_slots_within :: "nat \<Rightarrow> (py_error + accessible option) list \<Rightarrow> accessible list"
where
  "reachable_within 0 a = []"
| "reachable_within (Suc d) (Accessible st ce kids ti) =
     Accessible st ce kids ti #
       (case st of
          Inl e \<Rightarrow> []
        | Inr ss \<Rightarrow> (case ce of Some e \<Rightarrow> [] | None \<Rightarrow> reachable_slots_within d kids))"
| "reachable_slots_within d [] = []"
| "reachable_slots_within d (Inl e # rest) = []"
| "reachable_slots_within d (Inr None # rest) = reachable_slots_within d rest"
| "reachable_slots_within d (Inr (Some child) # rest) =
     (if d = 0 then [] else reachable_within d child @ reachable_slots_within d rest)"
  by pat_completeness auto
termination
  by (relation "measure (\<lambda>x. case x of
        Inl (d, a) \<Rightarrow> size a
      | Inr (d, kids) \<Rightarrow> size_list (size_sum (\<lambda>_. 0) (size_option size)) kids)") auto

function height :: "accessible \<Rightarrow> nat"
  and height_slots :: "(py_error + accessible option) list \<Rightarrow> nat"
where
  "height (Accessible st ce kids ti) = Suc (height_slots kids)"
| "height_slots [] = 0"
| "height_slots (Inl e # rest) = height_slots rest"
| "height_slots (Inr None # rest) = height_slots rest"
| "height_slots (Inr (Some child) # rest) = max (height child) (height_slots rest)"
  by pat_completeness auto
termination
  by (relation "measure (case_sum size (size_list (size_sum (\<lambda>_. 0) (size_option size))))") auto

text \<open>A node all of whose queries answer, and a tree of such nodes.\<close>

definition answers :: "accessible \<Rightarrow> bool" where
  "answers a \<longleftrightarrow>
     (case get_state_set a of Inl e \<Rightarrow> False | Inr ss \<Rightarrow> True) \<and>
     child_count_error a = None \<and>
     list_all (\<lambda>slot. case slot of Inl e \<Rightarrow> False | Inr c \<Rightarrow> True) (children a)"

definition error_free :: "accessible \<Rightarrow> bool" where
  "error_free a = list_all answers (preorder a)"

text \<open>The applications an enumeration of the desktop delivers.\<close>

fun apps :: "(py_error + accessible option) list \<Rightarrow> accessible list" where
  "apps [] = []"
| "apps (Inr (Some app) # rest) = app # apps rest"
| "apps (slot # rest) = apps rest"

text \<open>Whether the call of the search on an application gives a match.\<close>

definition yields_match :: "nat \<Rightarrow> accessible \<Rightarrow> bool" where
  "yields_match d app =
     (case find_focused d app of Inl e \<Rightarrow> False | Inr None \<Rightarrow> False | Inr (Some r) \<Rightarrow> True)"

text \<open>
  What the reader of the protocol does with a plain line: it strips the tag and the
  colon. (The reader is not part of the program.)
\<close>

definition strip_tag :: "ustr \<Rightarrow> ustr \<Rightarrow> ustr option" where
  "strip_tag tag line =
     (if take (length tag + 1) line = tag @ lit '':''
      then Some (drop (length tag + 1) line) else None)"

subsection \<open>Example trees\<close>

text \<open>
  Small trees for the concrete evaluations below: an element without text, an inner node,
  a focused text field holding a given text, a node whose state set cannot be read, a
  desktop with given application slots, and a chain of \<open>n\<close> nodes with one child each
  above a given tree.
\<close>

definition leaf :: "state_type list \<Rightarrow> accessible" where
  "leaf ss = Accessible (Inr ss) None [] (Inr None)"

definition node :: "state_type list \<Rightarrow> accessible list \<Rightarrow> accessible" where
  "node ss kids = Accessible (Inr ss) None (map (\<lambda>c. Inr (Some c)) kids) (Inr None)"

definition text_field :: "ustr \<Rightarrow> accessible" where
  "text_field v =
     Accessible (Inr [FOCUSED, EDITABLE]) None []
       (Inr (Some \<lparr>content = v, count_error = None, text_error = None\<rparr>))"


definition desktop_of :: "(py_error + accessible option) list \<Rightarrow> accessible" where
  "desktop_of slots = Accessible (Inr []) None slots (Inr None)"

definition example_app :: accessible where
  "example_app =
     node [VISIBLE]
       [leaf [VISIBLE],
        node [VISIBLE] [text_field (lit ''a''), leaf [FOCUSED]],
        leaf [FOCUSED]]"

fun chain :: "nat \<Rightarrow> accessible \<Rightarrow> accessible" where
  "chain 0 a = a"
| "chain (Suc n) a = Accessible (Inr [VISIBLE]) None [Inr (Some (chain n a))] (Inr None)"

definition deep_tree :: accessible where
  "deep_tree = chain 1000 (leaf [FOCUSED])"

definition text_10241 :: ustr where
  "text_10241 = replicate 10241 (uchr 97)"

section \<open>Characters and literals\<close>

lemma ord_uchr:
  "ord (uchr n) = (if n < 0xD800 \<or> (0xE000 \<le> n \<and> n < 0x110000) then n else 0xFFFD)"
  by (rule uchr.rep_eq)

lemma uchr_eq_iff: "uchr a = uchr b \<longleftrightarrow> ord (uchr a) = ord (uchr b)"
  by (simp add: ord_inject)

lemma LF_neq_CR: "LF \<noteq> CR"
  by (simp add: LF_def CR_def uchr_eq_iff ord_uchr)

section \<open>The base64 text is ASCII\<close>

lemma b64_alphabet_length: "length b64_alphabet = 64"
  by (simp add: b64_alphabet_def)

lemma b64_alphabet_ascii: "\<forall>c \<in> set b64_alphabet. (of_char c :: byte) < 128"
  by (simp add: b64_alphabet_def)

lemma b64_char_ascii: "i < 64 \<Longrightarrow> b64_char i < 128"
  using b64_alphabet_ascii b64_alphabet_length
  by (simp add: b64_char_def)

lemma b64_pad_ascii: "b64_pad < 128"
  by (simp add: b64_pad_def)

lemma sextet_bound: "unat (a :: byte) * 65536 + unat (b :: byte) * 256 + unat (c :: byte) < 16777216"
proof -
  have "unat a < 256" "unat b < 256" "unat c < 256"
    using unsigned_less [of a] unsigned_less [of b] unsigned_less [of c] by simp_all
  then show ?thesis by arith
qed

lemma top_sextet: "n < 16777216 \<Longrightarrow> n div 262144 < (64::nat)"
  by (simp add: less_mult_imp_div_less)

lemma b64encode_ascii: "list_all (\<lambda>b. b < 128) (b64encode bs)"
proof (induction bs rule: b64encode.induct)
  case 1
  show ?case by simp
next
  case (2 a)
  have "unat a * 65536 < 16777216"
    using sextet_bound [of a 0 0] by simp
  then show ?case
    by (simp add: Let_def b64_char_ascii b64_pad_ascii top_sextet)
next
  case (3 a b)
  have "unat a * 65536 + unat b * 256 < 16777216"
    using sextet_bound [of a b 0] by simp
  then show ?case
    by (simp add: Let_def b64_char_ascii b64_pad_ascii top_sextet)
next
  case (4 a b c rest)
  have "unat a * 65536 + unat b * 256 + unat c < 16777216"
    by (rule sextet_bound)
  with 4 show ?case
    by (simp add: Let_def b64_char_ascii top_sextet)
qed

lemma decode_ascii_b64encode: "decode_ascii (b64encode bs) = Inr (ascii_str (b64encode bs))"
  by (simp add: decode_ascii_def b64encode_ascii)

text \<open>Test vectors of RFC 4648 for the model of \<^verbatim>\<open>b64encode\<close>.\<close>

lemma b64encode_rfc4648:
  "b64encode (bytes_lit ''f'') = bytes_lit ''Zg==''"
  "b64encode (bytes_lit ''fo'') = bytes_lit ''Zm8=''"
  "b64encode (bytes_lit ''foo'') = bytes_lit ''Zm9v''"
  "b64encode (bytes_lit ''foobar'') = bytes_lit ''Zm9vYmFy''"
  by (simp_all add: bytes_lit_def b64_char_def b64_pad_def b64_alphabet_def)

section \<open>The base64 text holds no line break\<close>

lemma b64_char_mem: "i < 64 \<Longrightarrow> b64_char i \<in> of_char ` set b64_alphabet"
  using b64_alphabet_length by (simp add: b64_char_def)

lemma b64encode_chars: "set (b64encode bs) \<subseteq> insert b64_pad (of_char ` set b64_alphabet)"
proof (induction bs rule: b64encode.induct)
  case 1
  show ?case by simp
next
  case (2 a)
  have "unat a * 65536 < 16777216"
    using sextet_bound [of a 0 0] by simp
  then show ?case
    by (simp add: Let_def b64_char_mem top_sextet)
next
  case (3 a b)
  have "unat a * 65536 + unat b * 256 < 16777216"
    using sextet_bound [of a b 0] by simp
  then show ?case
    by (simp add: Let_def b64_char_mem top_sextet)
next
  case (4 a b c rest)
  have "unat a * 65536 + unat b * 256 + unat c < 16777216"
    by (rule sextet_bound)
  with 4 show ?case
    by (simp add: Let_def b64_char_mem top_sextet)
qed

lemma b64_alphabet_no_line_break:
  "\<forall>c \<in> set b64_alphabet. uchr (unat (of_char c :: byte)) \<noteq> LF \<and> uchr (unat (of_char c :: byte)) \<noteq> CR"
  by (simp add: b64_alphabet_def LF_def CR_def uchr_eq_iff ord_uchr)

lemma b64_pad_no_line_break: "uchr (unat b64_pad) \<noteq> LF \<and> uchr (unat b64_pad) \<noteq> CR"
  by (simp add: b64_pad_def LF_def CR_def uchr_eq_iff ord_uchr)

lemma b64_text_no_line_break:
  "LF \<notin> set (ascii_str (b64encode bs)) \<and> CR \<notin> set (ascii_str (b64encode bs))"
proof -
  have "uchr (unat b) \<noteq> LF \<and> uchr (unat b) \<noteq> CR" if "b \<in> set (b64encode bs)" for b
  proof -
    from that b64encode_chars [of bs]
    have "b = b64_pad \<or> (\<exists>c \<in> set b64_alphabet. b = of_char c)"
      by auto
    then show ?thesis
      using b64_alphabet_no_line_break b64_pad_no_line_break by blast
  qed
  then have "\<forall>b \<in> set (b64encode bs). LF \<noteq> uchr (unat b) \<and> CR \<noteq> uchr (unat b)"
    by metis
  then show ?thesis
    by (simp add: ascii_str_def image_iff)
qed

section \<open>The output encoder\<close>

lemma lit_colon_no_line_break:
  "LF \<notin> set (lit '':'') \<and> CR \<notin> set (lit '':'') \<and>
   LF \<notin> set (lit ''_B64:'') \<and> CR \<notin> set (lit ''_B64:'')"
  by (simp add: lit_def LF_def CR_def uchr_eq_iff ord_uchr)

text \<open>
  C1. For every prefix \<open>p\<close> and text \<open>v\<close>, \<open>emit_text\<close> truncates \<open>v\<close> to its first 10240
  characters and prints exactly one line: when the truncated text holds a line feed or a
  carriage return, \<open>p\<close>, \<^verbatim>\<open>_B64:\<close> and the base64 text of the UTF-8 bytes of the
  truncated text, and otherwise \<open>p\<close>, \<^verbatim>\<open>:\<close> and the truncated text unchanged. It never
  raises, and what it prints is one line indeed: with no line break in the prefix there
  is none in the line.
\<close>

theorem emit_text_line:
  "\<exists>line. emit_text p v out = Inr (out @ [line]) \<and>
     line =
       (if LF \<in> set (take 10240 v) \<or> CR \<in> set (take 10240 v)
        then p @ lit ''_B64:'' @ ascii_str (b64encode (encode_utf8 (take 10240 v)))
        else p @ lit '':'' @ take 10240 v) \<and>
     (LF \<notin> set p \<and> CR \<notin> set p \<longrightarrow> LF \<notin> set line \<and> CR \<notin> set line)"
  using b64_text_no_line_break [of "encode_utf8 (take 10240 v)"] lit_colon_no_line_break
  by (simp add: emit_text_def Let_def MAX_OUTPUT_CHARS_def decode_ascii_b64encode py_print_def)

theorem emit_text_line_witness:
  "emit_text (lit ''CHANGED'') (lit ''hello world'') [] = Inr [lit ''CHANGED:hello world'']
   \<and> emit_text (lit ''INITIAL_VALUE'') (lit ''line1'' @ [LF] @ lit ''line2'') []
       = Inr [lit ''INITIAL_VALUE_B64:bGluZTEKbGluZTI='']"
  using emit_text_line [of "lit ''CHANGED''" "lit ''hello world''" "[]"]
    emit_text_line [of "lit ''INITIAL_VALUE''" "lit ''line1'' @ [LF] @ lit ''line2''" "[]"]
  by (simp add: lit_def LF_def CR_def uchr_eq_iff ord_uchr encode_utf8_def utf8_char_def
      ascii_str_def b64_char_def b64_pad_def b64_alphabet_def)

lemma lit_append: "lit (a @ b) = lit a @ lit b"
  by (simp add: lit_def)

text \<open>Test vectors for the model of \<^verbatim>\<open>str.encode("utf-8")\<close>: U+0041, U+00E9, U+20AC, U+1F600.\<close>

lemma encode_utf8_vectors:
  "encode_utf8 [uchr 0x41] = [0x41]"
  "encode_utf8 [uchr 0xE9] = [0xC3, 0xA9]"
  "encode_utf8 [uchr 0x20AC] = [0xE2, 0x82, 0xAC]"
  "encode_utf8 [uchr 0x1F600] = [0xF0, 0x9F, 0x98, 0x80]"
  by (simp_all add: encode_utf8_def utf8_char_def ord_uchr)

text \<open>No byte of the encoding wraps around: each is the number the encoding asks for.\<close>

lemma ord_bound: "ord u < 0x110000"
  using ord [of u] by auto

lemma byte_of_nat: "n < 256 \<Longrightarrow> unat (of_nat n :: byte) = n"
  by (simp add: unat_of_nat)

lemma utf8_char_bytes:
  "map unat (utf8_char u) =
     (let c = ord u in
      if c < 0x80 then [c]
      else if c < 0x800 then [0xC0 + c div 64, 0x80 + c mod 64]
      else if c < 0x10000 then [0xE0 + c div 4096, 0x80 + c div 64 mod 64, 0x80 + c mod 64]
      else [0xF0 + c div 262144, 0x80 + c div 4096 mod 64, 0x80 + c div 64 mod 64,
            0x80 + c mod 64])"
proof -
  have m: "192 + ord u div 64 < 256" if "ord u < 2048"
    using that by simp
  have n: "224 + ord u div 4096 < 256" if "ord u < 65536"
    using that by simp
  have o: "240 + ord u div 262144 < 256"
    using ord_bound [of u] by simp
  have p: "128 + k mod 64 < (256::nat)" for k
  proof -
    have "k mod 64 < 64" by simp
    then show ?thesis by linarith
  qed
  show ?thesis
    using m n o
    by (simp add: utf8_char_def Let_def byte_of_nat p del: of_nat_add)
qed

section \<open>The focus locator\<close>

lemma find_append_case:
  "List.find P (xs @ ys) = (case List.find P xs of None \<Rightarrow> List.find P ys | Some x \<Rightarrow> Some x)"
  by (induction xs) auto

lemma find_focused_pos:
  "0 < d \<Longrightarrow>
     find_focused d a =
       Inr (case find_focused_try (d - 1) a of Inl e \<Rightarrow> None | Inr result \<Rightarrow> result)"
  by (cases d) simp_all

text \<open>
  The search and the list of the nodes it can get to follow the same recursion, so the
  three functions of the search are related to the two of the list in one induction.
\<close>

lemma find_focused_reachable_within:
  "find_focused d a =
     (if d = 0 then Inl RecursionError else Inr (List.find is_focused (reachable_within d a)))"
  "(case find_focused_try d a of Inl e \<Rightarrow> None | Inr r \<Rightarrow> r)
     = List.find is_focused (reachable_within (Suc d) a)"
  "(case scan_children d kids of Inl e \<Rightarrow> None | Inr r \<Rightarrow> r)
     = List.find is_focused (reachable_slots_within d kids)"
proof (induction d a and d a and d kids rule: find_focused_find_focused_try_scan_children.induct)
  case (1 a)
  show ?case by simp
next
  case (2 d a)
  then show ?case by simp
next
  case (3 d st ce kids ti)
  then show ?case
    by (auto simp: is_focused_def split: sum.splits option.splits)
next
  case (4 d)
  show ?case by simp
next
  case (5 d e rest)
  show ?case by simp
next
  case (6 d rest)
  then show ?case by simp
next
  case (7 d child rest)
  then show ?case
    by (auto simp: find_append_case split: sum.splits option.splits if_splits)
qed

lemma height_pos: "0 < height a"
  by (cases a) simp

text \<open>With frames for every level of the tree, the limit does not show.\<close>

lemma reachable_within_height:
  "height a \<le> d \<Longrightarrow> reachable_within d a = reachable a"
  "height_slots kids \<le> d \<Longrightarrow> reachable_slots_within d kids = reachable_slots kids"
proof (induction d a and d kids rule: reachable_within_reachable_slots_within.induct)
  case (1 a)
  then show ?case using height_pos [of a] by simp
next
  case (2 d st ce kids ti)
  then show ?case
    by (auto split: sum.splits option.splits)
next
  case (6 d child rest)
  then show ?case using height_pos [of child] by auto
qed simp_all

lemma reachable_error_free:
  "list_all answers (preorder a) \<Longrightarrow> reachable a = preorder a"
  "list_all (\<lambda>slot. case slot of Inl e \<Rightarrow> False | Inr c \<Rightarrow> True) kids \<Longrightarrow>
     list_all answers (preorder_slots kids) \<Longrightarrow> reachable_slots kids = preorder_slots kids"
proof (induction a and kids rule: preorder_preorder_slots.induct)
  case (1 st ce kids ti)
  then show ?case
    by (auto simp: answers_def split: sum.splits option.splits)
qed auto

lemma reachable_subset:
  "set (reachable a) \<subseteq> set (preorder a)"
  "set (reachable_slots kids) \<subseteq> set (preorder_slots kids)"
proof (induction a and kids rule: preorder_preorder_slots.induct)
  case (1 st ce kids ti)
  then show ?case
    by (auto split: sum.splits option.splits)
qed auto

lemma reachable_within_subset:
  "set (reachable_within d a) \<subseteq> set (preorder a)"
  "set (reachable_slots_within d kids) \<subseteq> set (preorder_slots kids)"
proof (induction d a and d kids rule: reachable_within_reachable_slots_within.induct)
  case (2 d st ce kids ti)
  then show ?case
    by (auto split: sum.splits option.splits)
qed auto

lemma preorder_slots_apps: "preorder_slots slots = concat (map preorder (apps slots))"
  by (induction slots rule: apps.induct) simp_all

lemma reachable_within_no_frame: "map (reachable_within 0) xs = map (\<lambda>a. []) xs"
  by simp

lemma search_apps_reachable_within:
  "search_apps d slots = List.find is_focused (concat (map (reachable_within d) (apps slots)))"
  by (induction d slots rule: search_apps.induct)
     (auto simp: find_append_case find_focused_reachable_within(1) reachable_within_no_frame
        split: sum.splits option.splits if_splits)

lemma search_apps_first:
  "search_apps d slots =
     (case List.find (yields_match d) (apps slots) of
        None \<Rightarrow> None
      | Some app \<Rightarrow> (case find_focused d app of Inl e \<Rightarrow> None | Inr result \<Rightarrow> result))"
  by (induction d slots rule: search_apps.induct)
     (auto simp: yields_match_def split: sum.splits option.splits)

lemma search_apps_None:
  assumes "\<forall>n \<in> set (preorder_slots slots). \<not> is_focused n"
  shows "search_apps d slots = None"
proof -
  have "set (concat (map (reachable_within d) (apps slots))) \<subseteq> set (preorder_slots slots)"
    using reachable_within_subset(1) by (auto simp: preorder_slots_apps)
  with assms show ?thesis
    by (auto simp: search_apps_reachable_within find_None_iff)
qed

text \<open>What the search returns is a focused node of the tree, whatever fails.\<close>

lemma find_focused_sound:
  assumes "find_focused d a = Inr (Some r)"
  shows "r \<in> set (preorder a) \<and> is_focused r"
proof -
  have "List.find is_focused (reachable_within d a) = Some r"
    using assms by (simp add: find_focused_reachable_within(1) split: if_splits)
  then have "r \<in> set (reachable_within d a) \<and> is_focused r"
    by (auto simp: find_Some_iff)
  then show ?thesis
    using reachable_within_subset(1) [of d a] by auto
qed

text \<open>A chain above a tree: its height, its queries, its first focused node, its search.\<close>

lemma chain_height: "height (chain n a) = n + height a"
  by (induction n) simp_all

lemma chain_error_free: "error_free (chain n a) = error_free a"
  by (induction n) (simp_all add: error_free_def answers_def)

lemma chain_first_focused:
  "List.find is_focused (preorder (chain n a)) = List.find is_focused (preorder a)"
  by (induction n) (simp_all add: is_focused_def)

lemma chain_too_deep:
  "0 < d \<Longrightarrow> d \<le> n \<Longrightarrow> find_focused d (chain n a) = Inr None"
proof (induction n arbitrary: d)
  case 0
  then show ?case by simp
next
  case (Suc n)
  then obtain d' where d: "d = Suc d'" by (cases d) auto
  show ?case
  proof (cases "d' = 0")
    case True
    with d show ?thesis by simp
  next
    case False
    with Suc d have "find_focused d' (chain n a) = Inr None" by simp
    with d show ?thesis by simp
  qed
qed

lemma leaf_facts:
  "error_free (leaf ss)" "preorder (leaf ss) = [leaf ss]" "height (leaf ss) = 1"
  "is_focused (leaf ss) = (FOCUSED \<in> set ss)"
  by (simp_all add: leaf_def error_free_def answers_def is_focused_def)

text \<open>
  C3, as stated, fails on a tree deeper than the interpreter allows calls to nest. The
  tree is a chain of 1000 nodes above a focused leaf, every query of it answers, and the
  first focused node of its pre-order is the leaf; with 1000 frames (no interpreter with
  the default limit has more inside \<open>main\<close>) the search returns \<open>None\<close>, and so does
  the loop over the applications.
\<close>

theorem find_focused_deep_tree_counterexample:
  "error_free deep_tree \<and>
   List.find is_focused (preorder deep_tree) = Some (leaf [FOCUSED]) \<and>
   find_focused 1000 deep_tree = Inr None \<and>
   search_apps 1000 [Inr (Some deep_tree)] = None"
proof -
  have "find_focused 1000 deep_tree = Inr None"
    unfolding deep_tree_def by (rule chain_too_deep) simp_all
  then show ?thesis
    by (simp add: deep_tree_def chain_error_free chain_first_focused leaf_facts)
qed

text \<open>
  C3, amended. For a tree of no more levels than the interpreter allows calls to nest,
  \<open>find_focused\<close> is a pre-order depth-first search: it returns the first node, in the
  order node first and then the children from left to right, whose state set contains
  FOCUSED, among the nodes the search can reach, and \<open>None\<close> when no reachable node is
  focused; when every query of the tree answers, every node is reachable. In a deeper
  tree the nodes below the limit are not reachable either: the call that would exceed the
  limit raises and its caller yields no match. The applications of the desktop are tried
  in order and the first one that yields a match gives the result.
\<close>

theorem find_focused_first_within_limit:
  "(height a \<le> d \<longrightarrow> find_focused d a = Inr (List.find is_focused (reachable a))) \<and>
   (height a \<le> d \<and> error_free a \<longrightarrow>
      find_focused d a = Inr (List.find is_focused (preorder a))) \<and>
   (0 < d \<longrightarrow> find_focused d a = Inr (List.find is_focused (reachable_within d a))) \<and>
   (0 < d \<and> (\<forall>n \<in> set (reachable_within d a). \<not> is_focused n) \<longrightarrow>
      find_focused d a = Inr None) \<and>
   search_apps d slots =
     (case List.find (yields_match d) (apps slots) of
        None \<Rightarrow> None
      | Some app \<Rightarrow> (case find_focused d app of Inl e \<Rightarrow> None | Inr result \<Rightarrow> result)) \<and>
   search_apps d slots = List.find is_focused (concat (map (reachable_within d) (apps slots))) \<and>
   ((\<forall>app \<in> set (apps slots). height app \<le> d) \<longrightarrow>
      search_apps d slots = List.find is_focused (concat (map reachable (apps slots))))"
proof (intro conjI impI)
  show "find_focused d a = Inr (List.find is_focused (reachable a))" if "height a \<le> d"
    using that height_pos [of a]
    by (simp add: find_focused_reachable_within(1) reachable_within_height(1))
  show "find_focused d a = Inr (List.find is_focused (preorder a))"
    if "height a \<le> d \<and> error_free a"
    using that height_pos [of a]
    by (simp add: find_focused_reachable_within(1) reachable_within_height(1)
        reachable_error_free(1) error_free_def)
  show "find_focused d a = Inr (List.find is_focused (reachable_within d a))" if "0 < d"
    using that by (simp add: find_focused_reachable_within(1))
  show "find_focused d a = Inr None"
    if "0 < d \<and> (\<forall>n \<in> set (reachable_within d a). \<not> is_focused n)"
    using that by (auto simp: find_focused_reachable_within(1) find_None_iff)
  show "search_apps d slots =
     (case List.find (yields_match d) (apps slots) of
        None \<Rightarrow> None
      | Some app \<Rightarrow> (case find_focused d app of Inl e \<Rightarrow> None | Inr result \<Rightarrow> result))"
    by (rule search_apps_first)
  show "search_apps d slots
      = List.find is_focused (concat (map (reachable_within d) (apps slots)))"
    by (rule search_apps_reachable_within)
  show "search_apps d slots = List.find is_focused (concat (map reachable (apps slots)))"
    if "\<forall>app \<in> set (apps slots). height app \<le> d"
  proof -
    have "map (reachable_within d) (apps slots) = map reachable (apps slots)"
      using that by (simp add: reachable_within_height(1))
    then show ?thesis
      by (simp only: search_apps_reachable_within)
  qed
qed

lemma example_app_preorder:
  "preorder example_app =
     [example_app, leaf [VISIBLE], node [VISIBLE] [text_field (lit ''a''), leaf [FOCUSED]],
      text_field (lit ''a''), leaf [FOCUSED], leaf [FOCUSED]]"
  by (simp add: example_app_def node_def leaf_def text_field_def)

lemma example_app_error_free: "error_free example_app"
  unfolding error_free_def example_app_preorder
  by (simp add: example_app_def node_def leaf_def text_field_def answers_def)

lemma example_app_height: "height example_app = 3"
  by (simp add: example_app_def node_def leaf_def text_field_def)

theorem find_focused_first_within_limit_witness:
  "height example_app \<le> 3 \<and> error_free example_app \<and>
   find_focused 3 example_app = Inr (Some (text_field (lit ''a''))) \<and>
   search_apps 3 [Inr None, Inl GLibError, Inr (Some (leaf [VISIBLE])), Inr (Some example_app),
                  Inr (Some (leaf [FOCUSED]))]
     = Some (text_field (lit ''a''))"
proof -
  have f: "List.find is_focused (preorder example_app) = Some (text_field (lit ''a''))"
    unfolding example_app_preorder
    by (simp add: example_app_def node_def leaf_def text_field_def is_focused_def)
  note t = find_focused_first_within_limit
    [of example_app 3 "[Inr None, Inl GLibError, Inr (Some (leaf [VISIBLE])),
       Inr (Some example_app), Inr (Some (leaf [FOCUSED]))]"]
  have a: "find_focused 3 example_app = Inr (Some (text_field (lit ''a'')))"
    using t [THEN conjunct2, THEN conjunct1] example_app_error_free example_app_height f
    by simp
  have l: "find_focused 3 (leaf [VISIBLE]) = Inr None"
    by (simp add: find_focused_pos leaf_def)
  have "search_apps 3 [Inr None, Inl GLibError, Inr (Some (leaf [VISIBLE])),
       Inr (Some example_app), Inr (Some (leaf [FOCUSED]))] = Some (text_field (lit ''a''))"
    using t [THEN conjunct2, THEN conjunct2, THEN conjunct2, THEN conjunct2, THEN conjunct1] a l
    by (simp add: yields_match_def)
  with a example_app_error_free example_app_height show ?thesis
    by simp
qed

section \<open>Errors during the search\<close>

text \<open>When the body of \<open>find_focused\<close> raises: exactly on these queries and calls.\<close>

lemma find_focused_try_Inl_iff:
  "find_focused_try d c = Inl e \<longleftrightarrow>
     get_state_set c = Inl e \<or>
     (\<exists>ss. get_state_set c = Inr ss \<and> FOCUSED \<notin> set ss \<and>
        (child_count_error c = Some e \<or>
         child_count_error c = None \<and> scan_children d (children c) = Inl e))"
  by (cases c) (auto split: sum.splits option.splits)

text \<open>What the call gives on a node, by the queries of the node.\<close>

lemma find_focused_node:
  "find_focused (Suc d) (Accessible st ce kids ti) =
     Inr (case st of
        Inl e \<Rightarrow> None
      | Inr ss \<Rightarrow>
          if FOCUSED \<in> set ss then Some (Accessible st ce kids ti)
          else (case ce of
             Some e \<Rightarrow> None
           | None \<Rightarrow> List.find is_focused (reachable_slots_within d kids)))"
  using find_focused_reachable_within(3) [of d kids]
  by (auto split: sum.splits option.splits)










section \<open>Startup\<close>

lemma read_text:
  "count_error ti = None \<Longrightarrow> get_character_count ti = Inr (int (length (content ti)))"
  "text_error ti = None \<Longrightarrow>
     get_text ti 0 (min (int (length (content ti))) (int MAX_OUTPUT_CHARS))
       = Inr (take MAX_OUTPUT_CHARS (content ti))"
  by (simp_all add: get_character_count_def get_text_def min_def)

lemma locate_text_field:
  "locate_focused 1000 (desktop_of [Inr (Some (text_field v))]) = Inr (Some (text_field v))"
  by (simp add: locate_focused_def desktop_of_def get_child_count_def text_field_def
      find_focused_pos)

lemma locate_leaf_focused:
  "locate_focused 1000 (desktop_of [Inr (Some (leaf [FOCUSED]))]) = Inr (Some (leaf [FOCUSED]))"
  by (simp add: locate_focused_def desktop_of_def get_child_count_def leaf_def
      find_focused_pos)

text \<open>
  With the desktop enumerated and no focused node under it, \<open>main\<close> prints NO_ELEMENT alone
  and exits with status 1.
\<close>

lemma main_no_focus:
  assumes "child_count_error desktop = None"
    and "\<forall>n \<in> set (preorder_slots (children desktop)). \<not> is_focused n"
  shows "main True frames stdin_line desktop = ([lit ''NO_ELEMENT''], Exit 1)"
  using assms(1) search_apps_None [OF assms(2)]
  by (simp add: main_def locate_focused_def get_child_count_def py_print_def)

lemma main_empty_desktop:
  "main True frames stdin_line (desktop_of []) = ([lit ''NO_ELEMENT''], Exit 1)"
  by (simp add: main_no_focus desktop_of_def)

text \<open>
  The query \<^verbatim>\<open>desktop.get_child_count()\<close> of \<open>main\<close> stands outside every \<^verbatim>\<open>try\<close>: when
  it raises, nothing is printed and the process ends in the uncaught exception.
\<close>

lemma main_count_error:
  "child_count_error desktop = Some e \<Longrightarrow> main True frames stdin_line desktop = ([], Traceback e)"
  by (simp add: main_def locate_focused_def get_child_count_def)

text \<open>
  C5. A desktop with no application and no focused element, whose child count cannot be
  read: \<open>main\<close> prints no line at all, where the claim asks for the line NO_ELEMENT; the
  process ends in the uncaught exception (status 1). The number of frames plays no part.
\<close>

theorem main_desktop_enumeration_uncaught:
  "preorder (Accessible (Inr []) (Some GLibError) [] (Inr None))
     = [Accessible (Inr []) (Some GLibError) [] (Inr None)] \<and>
   \<not> is_focused (Accessible (Inr []) (Some GLibError) [] (Inr None)) \<and>
   main True frames (Inr []) (Accessible (Inr []) (Some GLibError) [] (Inr None))
     = ([], Traceback GLibError) \<and>
   fst (main True frames (Inr []) (Accessible (Inr []) (Some GLibError) [] (Inr None)))
     \<noteq> [lit ''NO_ELEMENT'']"
  by (simp add: main_count_error is_focused_def)

text \<open>
  C6. When a focused element is found and it has no text capability, or the query for the
  capability raises, or the character count or the read of the text raises, \<open>main\<close> prints
  the line NO_VALUE alone and exits with status 0.
\<close>

theorem main_no_value:
  assumes "locate_focused frames desktop = Inr (Some focused)"
    and "get_text_iface focused = Inl e \<or> get_text_iface focused = Inr None \<or>
       (\<exists>ti. get_text_iface focused = Inr (Some ti) \<and>
          (count_error ti \<noteq> None \<or> text_error ti \<noteq> None))"
  shows "main True frames stdin_line desktop = ([lit ''NO_VALUE''], Exit 0) \<and>
     exit_status (snd (main True frames stdin_line desktop)) = Some 0"
  using assms
  by (auto simp: main_def py_print_def get_character_count_def get_text_def
      split: sum.splits option.splits)

theorem main_no_value_witness:
  "locate_focused 1000 (desktop_of [Inr (Some (leaf [FOCUSED]))]) = Inr (Some (leaf [FOCUSED])) \<and>
   get_text_iface (leaf [FOCUSED]) = Inr None \<and>
   main True 1000 (Inr []) (desktop_of [Inr (Some (leaf [FOCUSED]))]) = ([lit ''NO_VALUE''], Exit 0)"
proof -
  have i: "get_text_iface (leaf [FOCUSED]) = Inr None"
    by (simp add: leaf_def)
  then show ?thesis
    using main_no_value [OF locate_leaf_focused, of GLibError "Inr []"] locate_leaf_focused
    by simp
qed

text \<open>The initial value with no line feed and no carriage return in it.\<close>

lemma main_plain:
  assumes "locate_focused frames desktop = Inr (Some focused)"
    and "get_text_iface focused = Inr (Some ti)"
    and "count_error ti = None" and "text_error ti = None"
    and "LF \<notin> set (content ti)" and "CR \<notin> set (content ti)"
  shows "main True frames stdin_line desktop =
      ([lit ''INITIAL_VALUE'' @ lit '':'' @ take 10240 (content ti)],
       Watching (take 10240 (content ti)))"
proof -
  have "LF \<notin> set (take 10240 (content ti))" "CR \<notin> set (take 10240 (content ti))"
    using assms(5,6) by (auto dest: in_set_takeD)
  then show ?thesis
    using assms(1-4) read_text [of ti]
    by (simp add: main_def emit_text_def Let_def MAX_OUTPUT_CHARS_def py_print_def)
qed

lemma strip_tag_line: "strip_tag tag (tag @ lit '':'' @ v) = Some v"
  by (simp add: strip_tag_def lit_def)

lemma text_10241_plain: "LF \<notin> set text_10241" "CR \<notin> set text_10241"
  by (simp_all add: text_10241_def LF_def CR_def uchr_eq_iff ord_uchr)

text \<open>
  C7, as stated, fails on a text of 10241 characters without line feed or carriage
  return: the line printed is not INITIAL_VALUE: followed by that text, and stripping the
  tag does not give the text back.
\<close>

theorem main_initial_value_long_text_counterexample:
  "LF \<notin> set text_10241 \<and> CR \<notin> set text_10241 \<and>
   fst (main True 1000 (Inr []) (desktop_of [Inr (Some (text_field text_10241))]))
     \<noteq> [lit ''INITIAL_VALUE'' @ lit '':'' @ text_10241] \<and>
   map (strip_tag (lit ''INITIAL_VALUE''))
     (fst (main True 1000 (Inr []) (desktop_of [Inr (Some (text_field text_10241))])))
     \<noteq> [Some text_10241]"
proof -
  have "main True 1000 (Inr []) (desktop_of [Inr (Some (text_field text_10241))]) =
      ([lit ''INITIAL_VALUE'' @ lit '':'' @ take 10240 text_10241],
       Watching (take 10240 text_10241))"
    using main_plain [OF locate_text_field,
        of text_10241 "\<lparr>content = text_10241, count_error = None, text_error = None\<rparr>" "Inr []"]
      text_10241_plain
    by (simp add: text_field_def)
  then show ?thesis
    using text_10241_plain by (simp add: strip_tag_line) (simp add: text_10241_def)
qed

text \<open>
  C7, amended. For a focused text field whose text \<open>v\<close> has no line feed and no carriage
  return, the initial emission is the one line INITIAL_VALUE: followed by the first 10240
  characters of \<open>v\<close>, unchanged; stripping the tag gives exactly these characters back,
  and they are \<open>v\<close> itself when \<open>v\<close> has at most 10240 characters.
\<close>

theorem main_initial_value_truncated:
  assumes "locate_focused frames desktop = Inr (Some focused)"
    and "get_text_iface focused = Inr (Some ti)"
    and "count_error ti = None" and "text_error ti = None"
    and "LF \<notin> set (content ti)" and "CR \<notin> set (content ti)"
  shows "main True frames stdin_line desktop =
      ([lit ''INITIAL_VALUE'' @ lit '':'' @ take 10240 (content ti)],
       Watching (take 10240 (content ti))) \<and>
     strip_tag (lit ''INITIAL_VALUE'') (lit ''INITIAL_VALUE'' @ lit '':'' @ take 10240 (content ti))
       = Some (take 10240 (content ti)) \<and>
     (length (content ti) \<le> 10240 \<longrightarrow> take 10240 (content ti) = content ti)"
  using main_plain [OF assms] by (simp add: strip_tag_line)

theorem main_initial_value_truncated_witness:
  "LF \<notin> set (lit ''hello'') \<and> CR \<notin> set (lit ''hello'') \<and>
   main True 1000 (Inr []) (desktop_of [Inr (Some (text_field (lit ''hello'')))])
     = ([lit ''INITIAL_VALUE:hello''], Watching (lit ''hello'')) \<and>
   strip_tag (lit ''INITIAL_VALUE'') (lit ''INITIAL_VALUE:hello'') = Some (lit ''hello'')"
proof -
  have p: "LF \<notin> set (lit ''hello'')" "CR \<notin> set (lit ''hello'')"
    by (simp_all add: lit_def LF_def CR_def uchr_eq_iff ord_uchr)
  have t: "get_text_iface (text_field (lit ''hello''))
      = Inr (Some \<lparr>content = lit ''hello'', count_error = None, text_error = None\<rparr>)"
    by (simp add: text_field_def)
  have l: "lit ''INITIAL_VALUE'' @ lit '':'' @ lit ''hello'' = lit ''INITIAL_VALUE:hello''"
    by (simp add: lit_def)
  have n: "take 10240 (lit ''hello'') = lit ''hello''"
    by (simp add: lit_def)
  show ?thesis
    using main_initial_value_truncated [OF locate_text_field t, of "Inr []"] p l n
    by simp
qed

text \<open>
  C8. When the accessibility binding is not available, \<open>main\<close> prints the line NO_ELEMENT
  alone and exits with status 1, whatever the desktop is, whatever the read of the input
  line did and whatever the number of frames: the tree is not looked at.
\<close>

theorem main_without_atspi:
  "main False frames stdin_line desktop = ([lit ''NO_ELEMENT''], Exit 1) \<and>
   exit_status (snd (main False frames stdin_line desktop)) = Some 1"
  by (simp add: main_def py_print_def)

theorem main_without_atspi_witness:
  "main False 1000 (Inl IOError) (desktop_of [Inr (Some (text_field (lit ''hello'')))])
     = ([lit ''NO_ELEMENT''], Exit 1) \<and>
   main False 0 (Inr (lit ''pasted'')) (Accessible (Inr []) (Some GLibError) [] (Inr None))
     = ([lit ''NO_ELEMENT''], Exit 1)"
  using main_without_atspi [of 1000 "Inl IOError" "desktop_of [Inr (Some (text_field (lit ''hello'')))]"]
    main_without_atspi [of 0 "Inr (lit ''pasted'')" "Accessible (Inr []) (Some GLibError) [] (Inr None)"]
  by simp

section \<open>The change handler\<close>

text \<open>What the handler does when the read of the text succeeds, and when it does not.\<close>

lemma handler_read:
  assumes "get_text_iface (source ev) = Inr (Some ti)"
    and "count_error ti = None" and "text_error ti = None"
  shows "on_text_changed w ev =
     (if take 10240 (content ti) \<noteq> last_value w then
        w\<lparr>last_value := take 10240 (content ti),
          printed := printed w @
            [if LF \<in> set (take 10240 (content ti)) \<or> CR \<in> set (take 10240 (content ti))
             then lit ''CHANGED_B64:'' @
               ascii_str (b64encode (encode_utf8 (take 10240 (content ti))))
             else lit ''CHANGED:'' @ take 10240 (content ti)]\<rparr>
      else w)"
  using assms read_text [of ti]
  by (simp add: on_text_changed_def emit_text_def Let_def MAX_OUTPUT_CHARS_def
      decode_ascii_b64encode py_print_def lit_def)

lemma handler_no_read:
  "get_text_iface (source ev) = Inl e \<Longrightarrow> on_text_changed w ev = w"
  "get_text_iface (source ev) = Inr None \<Longrightarrow> on_text_changed w ev = w"
  "get_text_iface (source ev) = Inr (Some ti) \<Longrightarrow>
     count_error ti \<noteq> None \<or> text_error ti \<noteq> None \<Longrightarrow> on_text_changed w ev = w"
  by (auto simp: on_text_changed_def get_character_count_def get_text_def
      split: sum.splits option.splits)

text \<open>\<^verbatim>\<open>last_value\<close> never holds more than 10240 characters.\<close>

lemma main_last_value_bounded:
  "main h f s d = (out, Watching v) \<Longrightarrow> length v \<le> 10240"
  by (auto simp: main_def get_character_count_def get_text_def MAX_OUTPUT_CHARS_def Let_def
      split: sum.splits option.splits if_splits)

lemma handler_last_value_bounded:
  "length (last_value w) \<le> 10240 \<Longrightarrow> length (last_value (on_text_changed w ev)) \<le> 10240"
  by (auto simp: on_text_changed_def get_character_count_def get_text_def MAX_OUTPUT_CHARS_def
      split: sum.splits option.splits)

text \<open>
  C2. For an event whose source has a text capability that can be read, the handler
  compares the first 10240 characters of the current text with \<^verbatim>\<open>last_value\<close>. When they
  are equal it prints nothing and changes nothing. When they differ it sets
  \<^verbatim>\<open>last_value\<close> to them and prints exactly one line, CHANGED: or CHANGED_B64:. A second
  event with the same resulting text changes nothing more, so the two events together
  print at most one line.
\<close>

theorem on_text_changed_dedup:
  assumes "get_text_iface (source ev) = Inr (Some ti)"
    and "count_error ti = None" and "text_error ti = None"
  shows "(take 10240 (content ti) = last_value w \<longrightarrow> on_text_changed w ev = w) \<and>
     (take 10240 (content ti) \<noteq> last_value w \<longrightarrow>
        on_text_changed w ev =
          w\<lparr>last_value := take 10240 (content ti),
            printed := printed w @
              [if LF \<in> set (take 10240 (content ti)) \<or> CR \<in> set (take 10240 (content ti))
               then lit ''CHANGED_B64:'' @
                 ascii_str (b64encode (encode_utf8 (take 10240 (content ti))))
               else lit ''CHANGED:'' @ take 10240 (content ti)]\<rparr>) \<and>
     (get_text_iface (source ev') = Inr (Some ti') \<and> count_error ti' = None \<and>
      text_error ti' = None \<and> take 10240 (content ti') = take 10240 (content ti) \<longrightarrow>
        on_text_changed (on_text_changed w ev) ev' = on_text_changed w ev \<and>
        length (printed (on_text_changed (on_text_changed w ev) ev')) \<le> length (printed w) + 1)"
proof (intro conjI impI)
  show "on_text_changed w ev = w" if "take 10240 (content ti) = last_value w"
    using that by (simp add: handler_read [OF assms])
  show "on_text_changed w ev =
          w\<lparr>last_value := take 10240 (content ti),
            printed := printed w @
              [if LF \<in> set (take 10240 (content ti)) \<or> CR \<in> set (take 10240 (content ti))
               then lit ''CHANGED_B64:'' @
                 ascii_str (b64encode (encode_utf8 (take 10240 (content ti))))
               else lit ''CHANGED:'' @ take 10240 (content ti)]\<rparr>"
    if "take 10240 (content ti) \<noteq> last_value w"
    using that by (simp add: handler_read [OF assms])
next
  assume h: "get_text_iface (source ev') = Inr (Some ti') \<and> count_error ti' = None \<and>
      text_error ti' = None \<and> take 10240 (content ti') = take 10240 (content ti)"
  have l: "last_value (on_text_changed w ev) = take 10240 (content ti)"
    by (simp add: handler_read [OF assms])
  show s: "on_text_changed (on_text_changed w ev) ev' = on_text_changed w ev"
    using h l by (simp add: handler_read [of ev' ti'])
  show "length (printed (on_text_changed (on_text_changed w ev) ev')) \<le> length (printed w) + 1"
    unfolding s by (simp add: handler_read [OF assms])
qed

lemma text_field_iface:
  "get_text_iface (text_field v) = Inr (Some \<lparr>content = v, count_error = None, text_error = None\<rparr>)"
  by (simp add: text_field_def)

theorem on_text_changed_dedup_witness:
  "on_text_changed \<lparr>last_value = lit ''hello'', printed = [lit ''INITIAL_VALUE:hello'']\<rparr>
     \<lparr>source = text_field (lit ''hello world'')\<rparr>
     = \<lparr>last_value = lit ''hello world'',
        printed = [lit ''INITIAL_VALUE:hello'', lit ''CHANGED:hello world'']\<rparr> \<and>
   on_text_changed
     (on_text_changed \<lparr>last_value = lit ''hello'', printed = [lit ''INITIAL_VALUE:hello'']\<rparr>
        \<lparr>source = text_field (lit ''hello world'')\<rparr>)
     \<lparr>source = text_field (lit ''hello world'')\<rparr>
     = \<lparr>last_value = lit ''hello world'',
        printed = [lit ''INITIAL_VALUE:hello'', lit ''CHANGED:hello world'']\<rparr>"
proof -
  let ?ev = "\<lparr>source = text_field (lit ''hello world'')\<rparr>"
  let ?ti = "\<lparr>content = lit ''hello world'', count_error = None, text_error = None\<rparr>"
  let ?w = "\<lparr>last_value = lit ''hello'', printed = [lit ''INITIAL_VALUE:hello'']\<rparr>"
  have p: "LF \<notin> set (lit ''hello world'')" "CR \<notin> set (lit ''hello world'')"
    "lit ''hello world'' \<noteq> lit ''hello''" "take 10240 (lit ''hello world'') = lit ''hello world''"
    "lit ''CHANGED:'' @ lit ''hello world'' = lit ''CHANGED:hello world''"
    by (simp_all add: lit_def LF_def CR_def uchr_eq_iff ord_uchr)
  have i: "get_text_iface (source ?ev) = Inr (Some ?ti)"
    by (simp add: text_field_iface)
  note t = on_text_changed_dedup [OF i, of ?w ?ev ?ti]
  have a: "on_text_changed ?w ?ev
     = \<lparr>last_value = lit ''hello world'',
        printed = [lit ''INITIAL_VALUE:hello'', lit ''CHANGED:hello world'']\<rparr>"
    using t [THEN conjunct2, THEN conjunct1] p by simp
  have b: "on_text_changed (on_text_changed ?w ?ev) ?ev = on_text_changed ?w ?ev"
    using t [THEN conjunct2, THEN conjunct2] i by simp
  have c: "on_text_changed (on_text_changed ?w ?ev) ?ev
     = \<lparr>last_value = lit ''hello world'',
        printed = [lit ''INITIAL_VALUE:hello'', lit ''CHANGED:hello world'']\<rparr>"
    by (rule trans [OF b a])
  show ?thesis
    by (rule conjI [OF a c])
qed

text \<open>
  C10. The handler sees only the first 10240 characters of the current text: on two
  events whose texts agree on these characters (and whose queries fail alike) it returns
  the same state, output included. When the current text agrees with \<^verbatim>\<open>last_value\<close> on
  the first 10240 characters, it prints nothing and changes nothing, whatever the text
  holds after them.
\<close>

theorem on_text_changed_blind_past_bound:
  assumes "get_text_iface (source ev1) = Inr (Some ti1)"
    and "get_text_iface (source ev2) = Inr (Some ti2)"
    and "count_error ti1 = count_error ti2" and "text_error ti1 = text_error ti2"
    and "take 10240 (content ti1) = take 10240 (content ti2)"
  shows "on_text_changed w ev1 = on_text_changed w ev2 \<and>
    (length (last_value w) \<le> 10240 \<and> take 10240 (content ti1) = take 10240 (last_value w)
       \<longrightarrow> on_text_changed w ev1 = w)"
proof (cases "count_error ti1 = None \<and> text_error ti1 = None")
  case True
  then have "count_error ti2 = None" "text_error ti2 = None"
    using assms(3,4) by simp_all
  then show ?thesis
    using True assms(5)
    by (simp add: handler_read [OF assms(1)] handler_read [OF assms(2)])
next
  case False
  then have "count_error ti2 \<noteq> None \<or> text_error ti2 \<noteq> None"
    using assms(3,4) by simp
  then show ?thesis
    using False handler_no_read(3) [OF assms(1)] handler_no_read(3) [OF assms(2)]
    by simp
qed

theorem on_text_changed_blind_past_bound_witness:
  "replicate 10240 (uchr 97) @ lit ''b'' \<noteq> replicate 10240 (uchr 97) @ lit ''c'' \<and>
   on_text_changed \<lparr>last_value = replicate 10240 (uchr 97), printed = []\<rparr>
     \<lparr>source = text_field (replicate 10240 (uchr 97) @ lit ''b'')\<rparr>
   = on_text_changed \<lparr>last_value = replicate 10240 (uchr 97), printed = []\<rparr>
     \<lparr>source = text_field (replicate 10240 (uchr 97) @ lit ''c'')\<rparr> \<and>
   on_text_changed \<lparr>last_value = replicate 10240 (uchr 97), printed = []\<rparr>
     \<lparr>source = text_field (replicate 10240 (uchr 97) @ lit ''b'')\<rparr>
   = \<lparr>last_value = replicate 10240 (uchr 97), printed = []\<rparr>"
proof -
  let ?b = "replicate 10240 (uchr 97) @ lit ''b''"
  let ?c = "replicate 10240 (uchr 97) @ lit ''c''"
  let ?w = "\<lparr>last_value = replicate 10240 (uchr 97), printed = []\<rparr>"
  have d: "?b \<noteq> ?c"
    by (simp add: lit_def uchr_eq_iff ord_uchr)
  have i: "get_text_iface (source \<lparr>source = text_field ?b\<rparr>)
      = Inr (Some \<lparr>content = ?b, count_error = None, text_error = None\<rparr>)"
    "get_text_iface (source \<lparr>source = text_field ?c\<rparr>)
      = Inr (Some \<lparr>content = ?c, count_error = None, text_error = None\<rparr>)"
    by (simp_all add: text_field_iface)
  have h: "count_error \<lparr>content = ?b, count_error = None, text_error = None\<rparr>
      = count_error \<lparr>content = ?c, count_error = None, text_error = None\<rparr>"
    "text_error \<lparr>content = ?b, count_error = None, text_error = None\<rparr>
      = text_error \<lparr>content = ?c, count_error = None, text_error = None\<rparr>"
    "take 10240 (content \<lparr>content = ?b, count_error = None, text_error = None\<rparr>)
      = take 10240 (content \<lparr>content = ?c, count_error = None, text_error = None\<rparr>)"
    by simp_all
  note t = on_text_changed_blind_past_bound [OF i h, of ?w]
  have e1: "on_text_changed ?w \<lparr>source = text_field ?b\<rparr>
      = on_text_changed ?w \<lparr>source = text_field ?c\<rparr>"
    by (rule t [THEN conjunct1])
  have e2: "on_text_changed ?w \<lparr>source = text_field ?b\<rparr> = ?w"
    using t [THEN conjunct2] by simp
  show ?thesis
    by (rule conjI [OF d conjI [OF e1 e2]])
qed

end
